theory Spec2Isabelle
  imports Main "HOL-Library.Sublist"
begin

section \<open>The domains:add handler of commandHandler.ts\<close>

text \<open>
  The handler registers a domain, prints a notice and then leaves two timers behind:
  an interval timer whose asynchronous callback asks the remote service for the domain's
  status and acts on the answer, and a one-shot timer that gives up.  The handler keeps no
  state variable of its own; what it has is the two timer handles (\<open>interval\<close>,
  \<open>timeout\<close>), the timers the runtime still holds for them, and what it has printed.

  The embedding makes this explicit.  A \<open>monitor\<close> value holds the closure variables of
  the handler together with the part of the runtime the handler acts on: the table of
  active timers, the number of status requests sent and of those still unanswered, and
  the lines handed to the logger.  Each piece of the source that runs without
  interruption is one function on that state; the order in which the runtime runs them
  is given from outside as a list of events.
\<close>

subsection \<open>Data\<close>

text \<open>
  The answer of \<open>repository.domainStatus\<close>: an object with a \<open>status\<close> string and an
  optional \<open>context\<close> string (the field is called \<open>ctx\<close> here, \<open>context\<close> being a
  reserved word).
\<close>

record status_result =
  status :: string
  ctx :: "string option"

datatype level = Info | Error

type_synonym log_line = "level \<times> string"

type_synonym handle = nat

text \<open>The two anonymous callbacks of the handler, by the line at which they are passed.\<close>

datatype callback =
  PollCallback      \<comment> \<open>the \<open>async () => {...}\<close> given to \<open>setInterval\<close>, line 216\<close>
| TimeoutCallback   \<comment> \<open>the \<open>() => {...}\<close> given to \<open>setTimeout\<close>, line 255\<close>

record timer =
  delay :: nat         \<comment> \<open>milliseconds\<close>
  repeating :: bool    \<comment> \<open>\<open>setInterval\<close> timers repeat, \<open>setTimeout\<close> timers fire once\<close>
  callback :: callback

record monitor =
  domain :: string                   \<comment> \<open>\<open>const domain\<close>, line 207\<close>
  interval :: handle                 \<comment> \<open>\<open>const interval\<close>, line 216\<close>
  timeout :: "handle option"         \<comment> \<open>\<open>let timeout: any\<close>, line 215; \<open>None\<close> is \<open>undefined\<close>\<close>
  timers :: "handle \<rightharpoonup> timer"          \<comment> \<open>the runtime's active timers\<close>
  next_handle :: handle              \<comment> \<open>the runtime's next fresh handle\<close>
  polls :: nat                       \<comment> \<open>calls of \<open>repository.domainStatus\<close> made so far\<close>
  in_flight :: nat                   \<comment> \<open>of these, the calls still awaiting their answer\<close>
  logged :: "log_line list"          \<comment> \<open>calls of \<open>logger.info\<close> and \<open>logger.error\<close>, in order\<close>

subsection \<open>The runtime operations the handler calls\<close>

definition setInterval :: "callback \<Rightarrow> nat \<Rightarrow> monitor \<Rightarrow> handle \<times> monitor" where
  "setInterval cb ms s =
     (next_handle s,
      s\<lparr>timers := (timers s)(next_handle s \<mapsto> \<lparr>delay = ms, repeating = True, callback = cb\<rparr>),
        next_handle := Suc (next_handle s)\<rparr>)"

definition setTimeout :: "callback \<Rightarrow> nat \<Rightarrow> monitor \<Rightarrow> handle \<times> monitor" where
  "setTimeout cb ms s =
     (next_handle s,
      s\<lparr>timers := (timers s)(next_handle s \<mapsto> \<lparr>delay = ms, repeating = False, callback = cb\<rparr>),
        next_handle := Suc (next_handle s)\<rparr>)"

definition clearInterval :: "handle \<Rightarrow> monitor \<Rightarrow> monitor" where
  "clearInterval h s = s\<lparr>timers := (timers s)(h := None)\<rparr>"

definition clearTimeout :: "handle \<Rightarrow> monitor \<Rightarrow> monitor" where
  "clearTimeout h s = s\<lparr>timers := (timers s)(h := None)\<rparr>"

definition logger_info :: "string \<Rightarrow> monitor \<Rightarrow> monitor" where
  "logger_info msg s = s\<lparr>logged := logged s @ [(Info, msg)]\<rparr>"

definition logger_error :: "string \<Rightarrow> monitor \<Rightarrow> monitor" where
  "logger_error msg s = s\<lparr>logged := logged s @ [(Error, msg)]\<rparr>"

subsection \<open>The texts\<close>

text \<open>The template literals of lines 210, 219, 236 and 243 and the string of line 256.\<close>

definition generating_message :: string where
  "generating_message = ''\<newline>    Generating SSL Certificate...\<newline>    ''"

definition added_message :: "string \<Rightarrow> string" where
  "added_message d =
     ''\<newline>    Your domain has been added!\<newline>    The site is now available at https://''
     @ d @ ''/\<newline>        ''"

definition malformed_message :: "string \<Rightarrow> string" where
  "malformed_message d =
     ''\<newline>    The domain '' @ [CHR 0x22] @ d @ [CHR 0x22] @ '' seems to be malformed.''
     @ ''\<newline>    Please make sure your domain is in the format somedomain.com\<newline>          ''"

text \<open>A template literal prints an absent field as \<open>undefined\<close>.\<close>

definition interpolate :: "string option \<Rightarrow> string" where
  "interpolate v = (case v of None \<Rightarrow> ''undefined'' | Some c \<Rightarrow> c)"

definition certificate_error_message :: "string option \<Rightarrow> string" where
  "certificate_error_message c =
     ''\<newline>    Something seems to have gone wrong while trying to generate your ssl certificates.''
     @ ''\<newline>    Error code: '' @ interpolate c @ ''\<newline>        ''"

definition contact_message :: string where
  "contact_message =
     ''Something seems to have gone wrong. Please contact us through our github.''"

subsection \<open>The callbacks\<close>

text \<open>
  The interval callback is asynchronous.  Up to its \<open>await\<close> (line 217) it sends one
  status request, whatever the state; this is \<open>poll_send\<close>.  It resumes when the answer
  arrives and runs lines 218 to 252 on it; this is \<open>poll_resume\<close>.  A request whose
  promise is rejected never resumes its callback: it stays among the unanswered ones.
\<close>

definition poll_send :: "monitor \<Rightarrow> monitor" where
  "poll_send s = s\<lparr>polls := Suc (polls s), in_flight := Suc (in_flight s)\<rparr>"

text \<open>Lines 224 to 227 and again 248 to 251.\<close>

definition clear_both :: "monitor \<Rightarrow> monitor" where
  "clear_both s =
     (let s1 = (case timeout s of None \<Rightarrow> s | Some t \<Rightarrow> clearTimeout t s)
      in clearInterval (interval s1) s1)"

definition poll_resume :: "status_result \<Rightarrow> monitor \<Rightarrow> monitor" where
  "poll_resume result s =
     (if status result = ''ok'' then
        clear_both (logger_info (added_message (domain s)) s)
      else if status result = ''pending'' then s
      else if status result = ''error'' then
        (if ctx result = Some ''invalid_domain'' then
           logger_info (malformed_message (domain s)) s
         else
           clear_both (logger_error (certificate_error_message (ctx result)) s))
      else s)"

text \<open>Lines 256 and 257.\<close>

definition timeout_callback :: "monitor \<Rightarrow> monitor" where
  "timeout_callback s = clearInterval (interval s) (logger_error contact_message s)"

subsection \<open>The handler\<close>

text \<open>
  Lines 210 to 258, which run without interruption once \<open>addDomain\<close> has answered: the
  notice, \<open>setInterval\<close> with 500, \<open>setTimeout\<close> with 20000.
\<close>

definition idle :: "string \<Rightarrow> monitor" where
  "idle d = \<lparr>domain = d, interval = 0, timeout = None, timers = Map.empty, next_handle = 1,
             polls = 0, in_flight = 0, logged = []\<rparr>"

definition watch :: "string \<Rightarrow> monitor" where
  "watch d =
     (let s0 = logger_info generating_message (idle d);
          (i, s1) = setInterval PollCallback 500 s0;
          s2 = s1\<lparr>interval := i\<rparr>;
          (t, s3) = setTimeout TimeoutCallback 20000 s2
      in s3\<lparr>timeout := Some t\<rparr>)"

text \<open>
  Lines 205 to 208: without a token the handler returns at once; a rejected \<open>addDomain\<close>
  throws before anything is started.
\<close>

datatype stopped = NoToken | AddDomainRejected

definition domains_add :: "string option \<Rightarrow> string \<Rightarrow> bool \<Rightarrow> stopped + monitor" where
  "domains_add token d accepted =
     (case token of
        None \<Rightarrow> Inl NoToken
      | Some _ \<Rightarrow> if accepted then Inr (watch d) else Inl AddDomainRejected)"

subsection \<open>The event loop\<close>

text \<open>
  The runtime runs a timer's callback only while the timer is in its table, and takes a
  one-shot timer out of the table when it fires.
\<close>

definition run_callback :: "callback \<Rightarrow> monitor \<Rightarrow> monitor" where
  "run_callback cb s =
     (case cb of PollCallback \<Rightarrow> poll_send s | TimeoutCallback \<Rightarrow> timeout_callback s)"

definition fire :: "handle \<Rightarrow> monitor \<Rightarrow> monitor" where
  "fire h s =
     (case timers s h of
        None \<Rightarrow> s
      | Some t \<Rightarrow>
          run_callback (callback t)
            (if repeating t then s else s\<lparr>timers := (timers s)(h := None)\<rparr>))"

text \<open>
  What can happen after the handler has returned: the interval timer comes due, the
  one-shot timer comes due, or the answer to an unanswered status request arrives.  All
  requests ask the same question, so which of them an answer belongs to makes no
  difference; an answer with no request unanswered cannot arrive and is no step.
\<close>

datatype event = Tick | Deadline | Response status_result

fun step :: "event \<Rightarrow> monitor \<Rightarrow> monitor" where
  "step Tick s = fire (interval s) s"
| "step Deadline s = (case timeout s of None \<Rightarrow> s | Some h \<Rightarrow> fire h s)"
| "step (Response r) s =
     (if in_flight s = 0 then s else poll_resume r (s\<lparr>in_flight := in_flight s - 1\<rparr>))"

fun run :: "event list \<Rightarrow> monitor \<Rightarrow> monitor" where
  "run [] s = s"
| "run (e # es) s = run es (step e s)"

text \<open>What the callbacks have printed: the lines after the notice of line 210.\<close>

definition reports :: "monitor \<Rightarrow> log_line list" where
  "reports s = drop 1 (logged s)"

definition interval_live :: "monitor \<Rightarrow> bool" where
  "interval_live s = (timers s (interval s) \<noteq> None)"

definition deadline_pending :: "monitor \<Rightarrow> bool" where
  "deadline_pending s = (case timeout s of None \<Rightarrow> False | Some h \<Rightarrow> timers s h \<noteq> None)"

subsection \<open>Notions used to state the properties\<close>

text \<open>
  A run is orderly when no timer comes due while a status request is unanswered: each
  answer is handled before the next tick and before the deadline.
\<close>

fun orderly :: "event list \<Rightarrow> monitor \<Rightarrow> bool" where
  "orderly [] s = True"
| "orderly (Tick # es) s = (in_flight s = 0 \<and> orderly es (step Tick s))"
| "orderly (Deadline # es) s = (in_flight s = 0 \<and> orderly es (step Deadline s))"
| "orderly (Response r # es) s = orderly es (step (Response r) s)"

text \<open>
  A run whose ticks come after the answers: whenever the interval timer fires, no status
  request is unanswered.  The deadline may come due at any time.
\<close>

fun ticks_after_answers :: "event list \<Rightarrow> monitor \<Rightarrow> bool" where
  "ticks_after_answers [] s = True"
| "ticks_after_answers (Tick # es) s =
     ((in_flight s = 0 \<or> \<not> interval_live s) \<and> ticks_after_answers es (step Tick s))"
| "ticks_after_answers (Deadline # es) s = ticks_after_answers es (step Deadline s)"
| "ticks_after_answers (Response r # es) s = ticks_after_answers es (step (Response r) s)"

text \<open>The answers on which lines 218 to 252 clear the timers.\<close>

definition clearing :: "status_result \<Rightarrow> bool" where
  "clearing r =
     (status r = ''ok'' \<or> (status r = ''error'' \<and> ctx r \<noteq> Some ''invalid_domain''))"

definition invalid_domain :: "status_result \<Rightarrow> bool" where
  "invalid_domain r = (status r = ''error'' \<and> ctx r = Some ''invalid_domain'')"

text \<open>
  An event concludes the workflow when it makes a callback clear the timers: the
  deadline coming due while its timer is pending, or a clearing answer to an
  unanswered request.
\<close>

fun concluding :: "event \<Rightarrow> monitor \<Rightarrow> bool" where
  "concluding Tick s = False"
| "concluding Deadline s = deadline_pending s"
| "concluding (Response r) s = (0 < in_flight s \<and> clearing r)"

text \<open>Lists of events in which only timers come due.\<close>

fun only_timers :: "event list \<Rightarrow> bool" where
  "only_timers [] = True"
| "only_timers (Response r # es) = False"
| "only_timers (e # es) = only_timers es"

text \<open>Lists of events in which every answer has status \<open>pending\<close>.\<close>

fun all_pending :: "event list \<Rightarrow> bool" where
  "all_pending [] = True"
| "all_pending (Response r # es) = (status r = ''pending'' \<and> all_pending es)"
| "all_pending (e # es) = all_pending es"

text \<open>Lists of events in which no answer is \<open>error\<close> with context \<open>invalid_domain\<close>.\<close>

fun no_invalid_domain :: "event list \<Rightarrow> bool" where
  "no_invalid_domain [] = True"
| "no_invalid_domain (Response r # es) = (\<not> invalid_domain r \<and> no_invalid_domain es)"
| "no_invalid_domain (e # es) = no_invalid_domain es"

text \<open>
  The two shapes of the state after \<open>watch\<close>: both timers as they were started, or both
  gone from the runtime's table.
\<close>

definition poll_timer :: timer where
  "poll_timer = \<lparr>delay = 500, repeating = True, callback = PollCallback\<rparr>"

definition deadline_timer :: timer where
  "deadline_timer = \<lparr>delay = 20000, repeating = False, callback = TimeoutCallback\<rparr>"

definition wired :: "string \<Rightarrow> monitor \<Rightarrow> bool" where
  "wired d s = (domain s = d \<and> interval s = 1 \<and> timeout s = Some 2)"

definition armed :: "string \<Rightarrow> monitor \<Rightarrow> bool" where
  "armed d s = (wired d s \<and> timers s = [1 \<mapsto> poll_timer, 2 \<mapsto> deadline_timer])"

definition disarmed :: "string \<Rightarrow> monitor \<Rightarrow> bool" where
  "disarmed d s = (wired d s \<and> timers s = Map.empty)"

text \<open>What lines 218 to 252 print on an answer, for the domain \<open>d\<close>.\<close>

definition printed :: "string \<Rightarrow> status_result \<Rightarrow> log_line list" where
  "printed d r =
     (if status r = ''ok'' then [(Info, added_message d)]
      else if status r = ''pending'' then []
      else if status r = ''error'' then
        (if ctx r = Some ''invalid_domain'' then [(Info, malformed_message d)]
         else [(Error, certificate_error_message (ctx r))])
      else [])"

text \<open>
  The two kinds of state an orderly run goes through: the timers are active and nothing
  has been printed since the notice; or the timers are gone, no request is unanswered
  and one line has been printed since the notice.
\<close>

definition awaiting :: "string \<Rightarrow> monitor \<Rightarrow> bool" where
  "awaiting d s = (armed d s \<and> in_flight s \<le> 1 \<and> length (logged s) = 1)"

definition concluded :: "string \<Rightarrow> monitor \<Rightarrow> bool" where
  "concluded d s = (disarmed d s \<and> in_flight s = 0 \<and> length (logged s) = 2)"

section \<open>Basic facts\<close>

lemma watch_eq:
  "watch d =
     \<lparr>domain = d, interval = 1, timeout = Some 2,
      timers = [1 \<mapsto> poll_timer, 2 \<mapsto> deadline_timer],
      next_handle = 3, polls = 0, in_flight = 0,
      logged = [(Info, generating_message)]\<rparr>"
  apply (simp add: watch_def idle_def logger_info_def setInterval_def setTimeout_def Let_def
      poll_timer_def deadline_timer_def)
  apply (simp add: numeral_2_eq_2 numeral_3_eq_3)
  done

lemma armed_watch: "armed d (watch d)"
  by (simp add: watch_eq armed_def wired_def)

lemma clear_both_simps:
  "logged (clear_both s) = logged s"
  "polls (clear_both s) = polls s"
  "in_flight (clear_both s) = in_flight s"
  "domain (clear_both s) = domain s"
  "interval (clear_both s) = interval s"
  "timeout (clear_both s) = timeout s"
  "next_handle (clear_both s) = next_handle s"
  by (simp_all add: clear_both_def clearTimeout_def clearInterval_def Let_def split: option.split)

lemma clear_both_timers:
  "timers (clear_both s) h =
     (if h = interval s \<or> timeout s = Some h then None else timers s h)"
proof (cases "timeout s")
  case None
  then show ?thesis
    by (simp add: clear_both_def clearInterval_def)
next
  case (Some t)
  then show ?thesis
    by (simp add: clear_both_def clearInterval_def clearTimeout_def)
qed

lemma not_interval_live_clear_both: "\<not> interval_live (clear_both s)"
  by (simp add: interval_live_def clear_both_simps clear_both_timers)

lemma not_deadline_pending_clear_both: "\<not> deadline_pending (clear_both s)"
  by (cases "timeout s") (simp_all add: deadline_pending_def clear_both_simps clear_both_timers)

text \<open>The definitions that evaluate a run on given events.\<close>

lemmas run_defs =
  watch_eq fire_def run_callback_def poll_send_def poll_resume_def timeout_callback_def
  clear_both_def clearInterval_def clearTimeout_def logger_info_def logger_error_def
  poll_timer_def deadline_timer_def reports_def interval_live_def deadline_pending_def

section \<open>What the callback does on each answer\<close>

text \<open>
  C9.  A \<open>pending\<close> answer changes nothing and prints nothing: the callback returns at
  line 231, so the log, the timer table and both handles are as before, and a timer that
  was active stays active.  Only the request is no longer unanswered.
\<close>

theorem pending_changes_nothing:
  assumes "status r = ''pending''"
  shows "poll_resume r s = s
       \<and> step (Response r) s = s\<lparr>in_flight := in_flight s - 1\<rparr>
       \<and> logged (step (Response r) s) = logged s
       \<and> timers (step (Response r) s) = timers s
       \<and> interval_live (step (Response r) s) = interval_live s
       \<and> deadline_pending (step (Response r) s) = deadline_pending s"
proof -
  have resume: "poll_resume r s' = s'" for s'
    using assms by (simp add: poll_resume_def)
  have after: "step (Response r) s = s\<lparr>in_flight := in_flight s - 1\<rparr>"
    by (simp add: resume)
  show ?thesis
    unfolding after
    by (simp add: resume interval_live_def deadline_pending_def split: option.split)
qed

theorem pending_changes_nothing_witness:
  "status \<lparr>status = ''pending'', ctx = None\<rparr> = ''pending''
   \<and> logged (step (Response \<lparr>status = ''pending'', ctx = None\<rparr>)
         (run [Tick] (watch ''docs.example.com''))) = [(Info, generating_message)]
   \<and> interval_live (step (Response \<lparr>status = ''pending'', ctx = None\<rparr>)
         (run [Tick] (watch ''docs.example.com'')))
   \<and> deadline_pending (step (Response \<lparr>status = ''pending'', ctx = None\<rparr>)
         (run [Tick] (watch ''docs.example.com'')))"
  using pending_changes_nothing [of "\<lparr>status = ''pending'', ctx = None\<rparr>"
      "run [Tick] (watch ''docs.example.com'')"]
  by (simp add: watch_eq fire_def run_callback_def poll_send_def poll_timer_def
      interval_live_def deadline_pending_def)


text \<open>
  C10.  An answer whose status is none of \<open>ok\<close>, \<open>pending\<close> and \<open>error\<close> falls through
  the three tests of lines 218, 230 and 233: the step is the one a \<open>pending\<close> answer
  makes, so nothing is printed, no timer is cleared, and whatever follows runs as it
  would after \<open>pending\<close>.
\<close>

theorem unknown_status_like_pending:
  assumes "status r \<noteq> ''ok''" and "status r \<noteq> ''pending''" and "status r \<noteq> ''error''"
  shows "step (Response r) s = step (Response \<lparr>status = ''pending'', ctx = ctx r\<rparr>) s
       \<and> run (Response r # evs) s = run (Response \<lparr>status = ''pending'', ctx = ctx r\<rparr> # evs) s
       \<and> logged (step (Response r) s) = logged s
       \<and> timers (step (Response r) s) = timers s
       \<and> interval_live (step (Response r) s) = interval_live s
       \<and> deadline_pending (step (Response r) s) = deadline_pending s"
proof -
  have resume: "poll_resume r s' = s'" for s'
    using assms by (simp add: poll_resume_def)
  have after: "step (Response r) s = s\<lparr>in_flight := in_flight s - 1\<rparr>"
    by (simp add: resume)
  have pending: "step (Response \<lparr>status = ''pending'', ctx = ctx r\<rparr>) s
      = s\<lparr>in_flight := in_flight s - 1\<rparr>"
    by (simp add: poll_resume_def)
  have same: "step (Response r) s = step (Response \<lparr>status = ''pending'', ctx = ctx r\<rparr>) s"
    by (simp only: after pending)
  have "run (Response r # evs) s = run (Response \<lparr>status = ''pending'', ctx = ctx r\<rparr> # evs) s"
    by (simp only: run.simps same)
  moreover have "logged (step (Response r) s) = logged s"
    and "timers (step (Response r) s) = timers s"
    and "interval_live (step (Response r) s) = interval_live s"
    and "deadline_pending (step (Response r) s) = deadline_pending s"
    unfolding after
    by (simp_all add: interval_live_def deadline_pending_def split: option.split)
  ultimately show ?thesis
    using same by simp
qed

theorem unknown_status_like_pending_witness:
  "status \<lparr>status = ''queued'', ctx = None\<rparr> \<noteq> ''ok''
   \<and> status \<lparr>status = ''queued'', ctx = None\<rparr> \<noteq> ''pending''
   \<and> status \<lparr>status = ''queued'', ctx = None\<rparr> \<noteq> ''error''
   \<and> logged (step (Response \<lparr>status = ''queued'', ctx = None\<rparr>)
         (run [Tick] (watch ''docs.example.com''))) = [(Info, generating_message)]
   \<and> interval_live (step (Response \<lparr>status = ''queued'', ctx = None\<rparr>)
         (run [Tick] (watch ''docs.example.com'')))
   \<and> deadline_pending (step (Response \<lparr>status = ''queued'', ctx = None\<rparr>)
         (run [Tick] (watch ''docs.example.com'')))
   \<and> polls (run [Response \<lparr>status = ''queued'', ctx = None\<rparr>, Tick]
         (run [Tick] (watch ''docs.example.com''))) = 2"
  using unknown_status_like_pending [of "\<lparr>status = ''queued'', ctx = None\<rparr>"
      "run [Tick] (watch ''docs.example.com'')" "[Tick]"]
  by (simp add: watch_eq fire_def run_callback_def poll_send_def poll_resume_def poll_timer_def
      interval_live_def deadline_pending_def)

text \<open>
  C6.  On an \<open>ok\<close> answer the callback prints the line with the address of the site,
  \<open>https://\<close> followed by the domain and a slash, and clears both timers (lines 219 to
  228): afterwards neither the interval timer nor the one-shot timer is active, and no
  request has been added.
\<close>

theorem ok_reports_url_and_clears_timers:
  assumes "status r = ''ok''" and "0 < in_flight s"
  shows "logged (step (Response r) s) = logged s @ [(Info, added_message (domain s))]
       \<and> sublist (''https://'' @ domain s @ ''/'') (added_message (domain s))
       \<and> \<not> interval_live (step (Response r) s)
       \<and> \<not> deadline_pending (step (Response r) s)
       \<and> polls (step (Response r) s) = polls s"
proof -
  let ?s = "logger_info (added_message (domain s)) (s\<lparr>in_flight := in_flight s - 1\<rparr>)"
  have after: "step (Response r) s = clear_both ?s"
    using assms by (simp add: poll_resume_def)
  have "added_message (domain s) =
      ''\<newline>    Your domain has been added!\<newline>    The site is now available at ''
      @ (''https://'' @ domain s @ ''/'') @ ''\<newline>        ''"
    by (simp add: added_message_def)
  then have "sublist (''https://'' @ domain s @ ''/'') (added_message (domain s))"
    by (simp only: sublist_appendI)
  then show ?thesis
    unfolding after
    by (simp add: clear_both_simps not_interval_live_clear_both
        not_deadline_pending_clear_both logger_info_def)
qed

theorem ok_reports_url_and_clears_timers_witness:
  "status \<lparr>status = ''ok'', ctx = None\<rparr> = ''ok''
   \<and> 0 < in_flight (run [Tick] (watch ''docs.example.com''))
   \<and> reports (run [Tick, Response \<lparr>status = ''ok'', ctx = None\<rparr>] (watch ''docs.example.com''))
       = [(Info, added_message ''docs.example.com'')]
   \<and> sublist ''https://docs.example.com/'' (added_message ''docs.example.com'')
   \<and> \<not> interval_live
         (run [Tick, Response \<lparr>status = ''ok'', ctx = None\<rparr>] (watch ''docs.example.com''))
   \<and> \<not> deadline_pending
         (run [Tick, Response \<lparr>status = ''ok'', ctx = None\<rparr>] (watch ''docs.example.com''))"
  using ok_reports_url_and_clears_timers [of "\<lparr>status = ''ok'', ctx = None\<rparr>"
      "run [Tick] (watch ''docs.example.com'')"]
  by (simp add: watch_eq fire_def run_callback_def poll_send_def poll_timer_def reports_def)


text \<open>
  C7.  On an \<open>error\<close> answer whose context is not \<open>invalid_domain\<close> the callback
  prints, as an error, the line that ends in the error code (the context as the template
  literal renders it) and clears both timers (lines 243 to 251).
\<close>

theorem error_reports_code_and_clears_timers:
  assumes "status r = ''error''" and "ctx r \<noteq> Some ''invalid_domain''" and "0 < in_flight s"
  shows "logged (step (Response r) s) = logged s @ [(Error, certificate_error_message (ctx r))]
       \<and> sublist (''Error code: '' @ interpolate (ctx r)) (certificate_error_message (ctx r))
       \<and> interpolate (ctx r) = (case ctx r of None \<Rightarrow> ''undefined'' | Some c \<Rightarrow> c)
       \<and> \<not> interval_live (step (Response r) s)
       \<and> \<not> deadline_pending (step (Response r) s)
       \<and> polls (step (Response r) s) = polls s"
proof -
  let ?s = "logger_error (certificate_error_message (ctx r)) (s\<lparr>in_flight := in_flight s - 1\<rparr>)"
  have after: "step (Response r) s = clear_both ?s"
    using assms by (simp add: poll_resume_def)
  have "certificate_error_message (ctx r) =
      ''\<newline>    Something seems to have gone wrong while trying to generate your ssl certificates.\<newline>    ''
      @ (''Error code: '' @ interpolate (ctx r)) @ ''\<newline>        ''"
    by (simp add: certificate_error_message_def)
  then have "sublist (''Error code: '' @ interpolate (ctx r)) (certificate_error_message (ctx r))"
    by (simp only: sublist_appendI)
  then show ?thesis
    unfolding after
    by (simp add: clear_both_simps not_interval_live_clear_both
        not_deadline_pending_clear_both logger_error_def interpolate_def)
qed

theorem error_reports_code_and_clears_timers_witness:
  "status \<lparr>status = ''error'', ctx = Some ''cert_issuer_unreachable''\<rparr> = ''error''
   \<and> ctx \<lparr>status = ''error'', ctx = Some ''cert_issuer_unreachable''\<rparr> \<noteq> Some ''invalid_domain''
   \<and> 0 < in_flight (run [Tick] (watch ''docs.example.com''))
   \<and> reports (run [Tick, Response \<lparr>status = ''error'', ctx = Some ''cert_issuer_unreachable''\<rparr>]
         (watch ''docs.example.com''))
       = [(Error, certificate_error_message (Some ''cert_issuer_unreachable''))]
   \<and> sublist ''Error code: cert_issuer_unreachable''
         (certificate_error_message (Some ''cert_issuer_unreachable''))
   \<and> \<not> interval_live
         (run [Tick, Response \<lparr>status = ''error'', ctx = Some ''cert_issuer_unreachable''\<rparr>]
           (watch ''docs.example.com''))
   \<and> \<not> deadline_pending
         (run [Tick, Response \<lparr>status = ''error'', ctx = Some ''cert_issuer_unreachable''\<rparr>]
           (watch ''docs.example.com''))"
  using error_reports_code_and_clears_timers
    [of "\<lparr>status = ''error'', ctx = Some ''cert_issuer_unreachable''\<rparr>"
      "run [Tick] (watch ''docs.example.com'')"]
  by (simp add: watch_eq fire_def run_callback_def poll_send_def poll_timer_def reports_def
      interpolate_def)


text \<open>
  C1.  The specification has an \<open>error\<close> answer with context \<open>invalid_domain\<close> print the
  line about the malformed domain, end the workflow and clear both timers, so that no
  tick follows.  The code prints the line and returns at line 240, before the clearing of
  lines 248 to 251: after such an answer to the first request both timers are still
  active, the next tick sends a second request, a second such answer prints the line
  again, and the deadline then prints its own line as well.
\<close>

theorem invalid_domain_leaves_timers_running:
  "reports (run [Tick, Response \<lparr>status = ''error'', ctx = Some ''invalid_domain''\<rparr>] (watch d))
     = [(Info, malformed_message d)]
   \<and> interval_live
       (run [Tick, Response \<lparr>status = ''error'', ctx = Some ''invalid_domain''\<rparr>] (watch d))
   \<and> deadline_pending
       (run [Tick, Response \<lparr>status = ''error'', ctx = Some ''invalid_domain''\<rparr>] (watch d))
   \<and> polls
       (run [Tick, Response \<lparr>status = ''error'', ctx = Some ''invalid_domain''\<rparr>, Tick] (watch d))
     = 2
   \<and> reports
       (run [Tick, Response \<lparr>status = ''error'', ctx = Some ''invalid_domain''\<rparr>,
             Tick, Response \<lparr>status = ''error'', ctx = Some ''invalid_domain''\<rparr>,
             Deadline] (watch d))
     = [(Info, malformed_message d), (Info, malformed_message d), (Error, contact_message)]"
  by (simp add: run_defs)

section \<open>The states a run goes through\<close>

lemma run_append: "run (xs @ ys) s = run ys (run xs s)"
  by (induction xs arbitrary: s) simp_all

lemma table_cleared: "[1 \<mapsto> a, 2 \<mapsto> b](2 := None, 1 := None) = (Map.empty :: handle \<rightharpoonup> timer)"
  by (rule ext) simp

lemma armed_update [simp]:
  "armed d (s\<lparr>in_flight := n\<rparr>) = armed d s"
  "armed d (s\<lparr>polls := n\<rparr>) = armed d s"
  "armed d (s\<lparr>logged := l\<rparr>) = armed d s"
  by (simp_all add: armed_def wired_def)

lemma disarmed_update [simp]:
  "disarmed d (s\<lparr>in_flight := n\<rparr>) = disarmed d s"
  "disarmed d (s\<lparr>polls := n\<rparr>) = disarmed d s"
  "disarmed d (s\<lparr>logged := l\<rparr>) = disarmed d s"
  by (simp_all add: disarmed_def wired_def)

lemma armed_not_disarmed: "armed d s \<Longrightarrow> \<not> disarmed d s"
proof
  assume "armed d s" and "disarmed d s"
  then have "[1 \<mapsto> poll_timer, 2 \<mapsto> deadline_timer] = (Map.empty :: handle \<rightharpoonup> timer)"
    by (simp add: armed_def disarmed_def)
  then have "[1 \<mapsto> poll_timer, 2 \<mapsto> deadline_timer] (1 :: handle) = None"
    by (simp only: )
  then show False by simp
qed

lemma disarmed_quiet: "disarmed d s \<Longrightarrow> \<not> interval_live s \<and> \<not> deadline_pending s"
  by (simp add: disarmed_def wired_def interval_live_def deadline_pending_def)

lemma clear_both_armed: "armed d s \<Longrightarrow> disarmed d (clear_both s)"
  by (simp add: armed_def disarmed_def wired_def clear_both_def clearTimeout_def
      clearInterval_def table_cleared)

lemma clear_both_disarmed: "disarmed d s \<Longrightarrow> disarmed d (clear_both s)"
  by (simp add: disarmed_def wired_def clear_both_def clearTimeout_def clearInterval_def)

lemma poll_resume_logged: "logged (poll_resume r s) = logged s @ printed (domain s) r"
  by (simp add: poll_resume_def printed_def clear_both_simps logger_info_def logger_error_def)

lemma poll_resume_counts:
  "polls (poll_resume r s) = polls s" "in_flight (poll_resume r s) = in_flight s"
  by (simp_all add: poll_resume_def clear_both_simps logger_info_def logger_error_def)

lemma poll_resume_armed:
  "armed d s \<Longrightarrow>
     (if clearing r then disarmed d (poll_resume r s) else armed d (poll_resume r s))"
  by (auto simp add: poll_resume_def clearing_def logger_info_def logger_error_def
      intro: clear_both_armed)

lemma poll_resume_disarmed: "disarmed d s \<Longrightarrow> disarmed d (poll_resume r s)"
  by (auto simp add: poll_resume_def logger_info_def logger_error_def
      intro: clear_both_disarmed)

lemma step_Tick_armed: "armed d s \<Longrightarrow> step Tick s = poll_send s"
  by (simp add: armed_def wired_def fire_def run_callback_def poll_timer_def)

lemma step_Deadline_armed:
  "armed d s \<Longrightarrow>
     disarmed d (step Deadline s)
     \<and> logged (step Deadline s) = logged s @ [(Error, contact_message)]
     \<and> polls (step Deadline s) = polls s
     \<and> in_flight (step Deadline s) = in_flight s"
  by (simp add: armed_def disarmed_def wired_def fire_def run_callback_def deadline_timer_def
      timeout_callback_def clearInterval_def logger_error_def table_cleared)

lemma step_timer_disarmed:
  "disarmed d s \<Longrightarrow> step Tick s = s" "disarmed d s \<Longrightarrow> step Deadline s = s"
  by (simp_all add: disarmed_def wired_def fire_def)


lemma step_shape:
  assumes "armed d s \<or> disarmed d s"
  shows "armed d (step e s) \<or> disarmed d (step e s)"
proof (cases e)
  case Tick
  with assms show ?thesis
    by (auto simp add: step_Tick_armed step_timer_disarmed poll_send_def simp del: step.simps)
next
  case Deadline
  with assms show ?thesis
    using step_Deadline_armed [of d s]
    by (auto simp add: step_timer_disarmed simp del: step.simps)
next
  case (Response r)
  show ?thesis
  proof (cases "in_flight s = 0")
    case True
    with assms Response show ?thesis by simp
  next
    case False
    let ?s = "s\<lparr>in_flight := in_flight s - 1\<rparr>"
    from False Response have after: "step e s = poll_resume r ?s" by simp
    from assms have "armed d ?s \<or> disarmed d ?s" by simp
    then show ?thesis
      unfolding after
      using poll_resume_armed [of d ?s r] poll_resume_disarmed [of d ?s r]
      by (auto split: if_splits)
  qed
qed

lemma run_shape: "armed d s \<or> disarmed d s \<Longrightarrow> armed d (run es s) \<or> disarmed d (run es s)"
proof (induction es arbitrary: s)
  case Nil
  then show ?case by simp
next
  case (Cons e es)
  from Cons.prems have "armed d (step e s) \<or> disarmed d (step e s)"
    by (rule step_shape)
  then show ?case
    using Cons.IH [of "step e s"] by simp
qed

lemma reachable_shape: "armed d (run es (watch d)) \<or> disarmed d (run es (watch d))"
  by (rule run_shape) (simp add: armed_watch)

lemma step_disarmed:
  assumes "disarmed d s"
  shows "disarmed d (step e s) \<and> polls (step e s) = polls s"
proof (cases e)
  case Tick
  with assms show ?thesis by (simp add: step_timer_disarmed del: step.simps)
next
  case Deadline
  with assms show ?thesis by (simp add: step_timer_disarmed del: step.simps)
next
  case (Response r)
  with assms show ?thesis
    by (simp add: poll_resume_disarmed poll_resume_counts)
qed

lemma run_disarmed:
  "disarmed d s \<Longrightarrow> disarmed d (run es s) \<and> polls (run es s) = polls s"
proof (induction es arbitrary: s)
  case Nil
  then show ?case by simp
next
  case (Cons e es)
  from Cons.prems have "disarmed d (step e s)" and "polls (step e s) = polls s"
    using step_disarmed [of d s e] by simp_all
  then show ?case
    using Cons.IH [of "step e s"] by simp
qed

lemma run_only_timers_disarmed: "disarmed d s \<Longrightarrow> only_timers es \<Longrightarrow> run es s = s"
proof (induction es arbitrary: s)
  case Nil
  then show ?case by simp
next
  case (Cons e es)
  then show ?case
    by (cases e) (simp_all add: step_timer_disarmed del: step.simps)
qed

lemma concluding_disarms:
  assumes "armed d s \<or> disarmed d s" and "concluding e s"
  shows "disarmed d (step e s)"
proof (cases e)
  case Tick
  with assms show ?thesis by simp
next
  case Deadline
  with assms have "deadline_pending s" by simp
  with assms(1) have "armed d s"
    using disarmed_quiet [of d s] by blast
  with Deadline show ?thesis
    using step_Deadline_armed [of d s] by simp
next
  case (Response r)
  let ?s = "s\<lparr>in_flight := in_flight s - 1\<rparr>"
  from Response assms(2) have "0 < in_flight s" and "clearing r" by simp_all
  then have after: "step e s = poll_resume r ?s"
    using Response by simp
  from assms(1) have "armed d ?s \<or> disarmed d ?s" by simp
  then show ?thesis
    unfolding after
    using poll_resume_armed [of d ?s r] poll_resume_disarmed [of d ?s r] \<open>clearing r\<close>
    by auto
qed


section \<open>After the timers are gone\<close>

text \<open>
  C4.  The specification has every firing of a timer after a terminal transition be
  without effect, and has each tick check a monitor state to make sure of it.  The
  callbacks check nothing.  What the code has is cancellation alone: once an event has
  concluded the workflow, by a clearing answer or by the deadline, both timers are gone
  from the runtime's table and stay gone, whatever happens later.  So at every later
  point, with or without answers arriving in between, a tick or the deadline coming due
  leaves the state as it is, and no request is sent any more.
\<close>

theorem no_timer_fires_after_conclusion:
  assumes "concluding e (run evs (watch d))"
  shows "step Tick (run (evs @ e # later) (watch d)) = run (evs @ e # later) (watch d)
       \<and> step Deadline (run (evs @ e # later) (watch d)) = run (evs @ e # later) (watch d)
       \<and> \<not> interval_live (run (evs @ e # later) (watch d))
       \<and> \<not> deadline_pending (run (evs @ e # later) (watch d))
       \<and> polls (run (evs @ e # later) (watch d)) = polls (run (evs @ [e]) (watch d))
       \<and> (only_timers later \<longrightarrow>
            run (evs @ e # later) (watch d) = run (evs @ [e]) (watch d))"
proof -
  let ?s = "run evs (watch d)"
  let ?t = "run later (step e ?s)"
  have "armed d ?s \<or> disarmed d ?s"
    by (rule reachable_shape)
  then have gone: "disarmed d (step e ?s)"
    using assms by (rule concluding_disarms)
  then have still: "disarmed d ?t" and sent: "polls ?t = polls (step e ?s)"
    using run_disarmed [of d "step e ?s" later] by simp_all
  have final: "run (evs @ e # later) (watch d) = ?t"
    by (simp add: run_append del: step.simps)
  have first: "run (evs @ [e]) (watch d) = step e ?s"
    by (simp add: run_append del: step.simps)
  have "step Tick ?t = ?t" and "step Deadline ?t = ?t"
    using still by (rule step_timer_disarmed)+
  moreover have "\<not> interval_live ?t" and "\<not> deadline_pending ?t"
    using disarmed_quiet [OF still] by simp_all
  moreover have "?t = step e ?s" if "only_timers later"
    using gone that by (rule run_only_timers_disarmed)
  ultimately show ?thesis
    unfolding final first using sent by (simp del: step.simps)
qed

theorem no_timer_fires_after_conclusion_witness:
  "concluding Deadline (run [Tick] (watch ''docs.example.com''))
   \<and> step Tick (run ([Tick] @ Deadline # [Response \<lparr>status = ''pending'', ctx = None\<rparr>])
         (watch ''docs.example.com''))
       = run ([Tick] @ Deadline # [Response \<lparr>status = ''pending'', ctx = None\<rparr>])
           (watch ''docs.example.com'')
   \<and> polls (run [Tick, Deadline, Response \<lparr>status = ''pending'', ctx = None\<rparr>, Tick]
         (watch ''docs.example.com'')) = 1
   \<and> concluding (Response \<lparr>status = ''ok'', ctx = None\<rparr>) (run [Tick] (watch ''docs.example.com''))
   \<and> only_timers [Tick, Deadline, Tick]
   \<and> run ([Tick] @ Response \<lparr>status = ''ok'', ctx = None\<rparr> # [Tick, Deadline, Tick])
         (watch ''docs.example.com'')
       = run ([Tick] @ [Response \<lparr>status = ''ok'', ctx = None\<rparr>]) (watch ''docs.example.com'')
   \<and> reports (run [Tick, Response \<lparr>status = ''ok'', ctx = None\<rparr>, Tick, Deadline, Tick]
         (watch ''docs.example.com''))
       = [(Info, added_message ''docs.example.com'')]"
  using no_timer_fires_after_conclusion [of Deadline "[Tick]" "''docs.example.com''"
      "[Response \<lparr>status = ''pending'', ctx = None\<rparr>]"]
    no_timer_fires_after_conclusion [of "Response \<lparr>status = ''ok'', ctx = None\<rparr>"
      "[Tick]" "''docs.example.com''" "[Tick, Deadline, Tick]"]
  by (simp add: run_defs clearing_def)

text \<open>
  C4 as the specification states it fails: after an \<open>ok\<close> answer has ended the workflow,
  the body of the interval callback, run once more, sends a second status request, and
  the body of the timeout callback, run once more, prints a second line.  Neither looks
  at any state.
\<close>

theorem callbacks_have_no_guard:
  "reports (run [Tick, Response \<lparr>status = ''ok'', ctx = None\<rparr>] (watch ''docs.example.com''))
     = [(Info, added_message ''docs.example.com'')]
   \<and> polls (run [Tick, Response \<lparr>status = ''ok'', ctx = None\<rparr>] (watch ''docs.example.com'')) = 1
   \<and> polls (run_callback PollCallback
         (run [Tick, Response \<lparr>status = ''ok'', ctx = None\<rparr>] (watch ''docs.example.com''))) = 2
   \<and> reports (run_callback TimeoutCallback
         (run [Tick, Response \<lparr>status = ''ok'', ctx = None\<rparr>] (watch ''docs.example.com'')))
     = [(Info, added_message ''docs.example.com''), (Error, contact_message)]"
  by (simp add: run_defs)


section \<open>Runs in which every answer is pending\<close>

lemma step_pending_armed:
  assumes "armed d s" and "all_pending [e]" and "e \<noteq> Deadline"
  shows "armed d (step e s) \<and> logged (step e s) = logged s"
proof (cases e)
  case Tick
  with assms show ?thesis
    by (simp add: step_Tick_armed poll_send_def del: step.simps)
next
  case Deadline
  with assms show ?thesis by simp
next
  case (Response r)
  with assms have "poll_resume r s' = s'" for s'
    by (simp add: poll_resume_def)
  with assms(1) Response show ?thesis by simp
qed

lemma run_pending_armed:
  "armed d s \<Longrightarrow> all_pending es \<Longrightarrow> Deadline \<notin> set es \<Longrightarrow>
     armed d (run es s) \<and> logged (run es s) = logged s"
proof (induction es arbitrary: s)
  case Nil
  then show ?case by simp
next
  case (Cons e es)
  from Cons.prems have one: "all_pending [e]" and rest: "all_pending es"
    by (cases e; simp)+
  from Cons.prems have "e \<noteq> Deadline" and "Deadline \<notin> set es" by auto
  with Cons.prems(1) one have "armed d (step e s)" and "logged (step e s) = logged s"
    using step_pending_armed [of d s e] by simp_all
  then show ?case
    using Cons.IH [of "step e s"] rest \<open>Deadline \<notin> set es\<close> by simp
qed

lemma run_pending_disarmed:
  "disarmed d s \<Longrightarrow> all_pending es \<Longrightarrow> logged (run es s) = logged s"
proof (induction es arbitrary: s)
  case Nil
  then show ?case by simp
next
  case (Cons e es)
  from Cons.prems have one: "all_pending [e]" and rest: "all_pending es"
    by (cases e; simp)+
  have same: "logged (step e s) = logged s"
  proof (cases e)
    case Tick
    with Cons.prems show ?thesis by (simp add: step_timer_disarmed del: step.simps)
  next
    case Deadline
    with Cons.prems show ?thesis by (simp add: step_timer_disarmed del: step.simps)
  next
    case (Response r)
    with one have "poll_resume r s' = s'" for s'
      by (simp add: poll_resume_def)
    with Response show ?thesis by simp
  qed
  from Cons.prems have "disarmed d (step e s)"
    using step_disarmed [of d s e] by simp
  then show ?case
    using Cons.IH [of "step e s"] rest same by simp
qed

lemma printed_not_contact: "(Error, contact_message) \<notin> set (printed d r)"
  by (simp add: printed_def contact_message_def certificate_error_message_def)

lemma step_logged_grows: "\<exists>ls. logged (step e s) = logged s @ ls"
proof (cases e)
  case Tick
  then show ?thesis
    by (cases "timers s (interval s)")
      (auto simp add: fire_def run_callback_def poll_send_def timeout_callback_def
        clearInterval_def logger_error_def split: callback.split)
next
  case Deadline
  show ?thesis
  proof (cases "timeout s")
    case None
    with Deadline show ?thesis by simp
  next
    case (Some h)
    with Deadline show ?thesis
      by (cases "timers s h")
        (auto simp add: fire_def run_callback_def poll_send_def timeout_callback_def
          clearInterval_def logger_error_def split: callback.split)
  qed
next
  case (Response r)
  then show ?thesis by (simp add: poll_resume_logged)
qed

lemma run_logged_grows: "\<exists>ls. logged (run es s) = logged s @ ls"
proof (induction es arbitrary: s)
  case Nil
  then show ?case by simp
next
  case (Cons e es)
  obtain ls where "logged (step e s) = logged s @ ls"
    using step_logged_grows by blast
  moreover obtain ls' where "logged (run es (step e s)) = logged (step e s) @ ls'"
    using Cons.IH by blast
  ultimately show ?case by simp
qed

lemma run_disarmed_contact:
  "disarmed d s \<Longrightarrow>
     count_list (logged (run es s)) (Error, contact_message)
       = count_list (logged s) (Error, contact_message)"
proof (induction es arbitrary: s)
  case Nil
  then show ?case by simp
next
  case (Cons e es)
  have same: "count_list (logged (step e s)) (Error, contact_message)
      = count_list (logged s) (Error, contact_message)"
  proof (cases e)
    case Tick
    with Cons.prems show ?thesis
      using step_timer_disarmed(1) [of d s] by (simp del: step.simps)
  next
    case Deadline
    with Cons.prems show ?thesis
      using step_timer_disarmed(2) [of d s] by (simp del: step.simps)
  next
    case (Response r)
    then show ?thesis
      using printed_not_contact [of "domain s" r]
      by (simp add: poll_resume_logged count_list_0_iff)
  qed
  from Cons.prems have "disarmed d (step e s)"
    using step_disarmed [of d s e] by simp
  then show ?case
    using Cons.IH [of "step e s"] same by simp
qed

text \<open>
  C5.  When every answer is \<open>pending\<close>, the deadline, the first time it comes due,
  prints the one line that asks the user to get in touch and clears the interval timer.
  From then on no request is sent, whatever comes after, and while the answers that are
  still to arrive are \<open>pending\<close> too, that line stays the only one printed.
\<close>

theorem all_pending_times_out_once:
  assumes "all_pending before" and "Deadline \<notin> set before"
  shows "reports (run (before @ [Deadline]) (watch d)) = [(Error, contact_message)]
       \<and> contact_message =
           ''Something seems to have gone wrong. Please contact us through our github.''
       \<and> \<not> interval_live (run (before @ Deadline # later) (watch d))
       \<and> \<not> deadline_pending (run (before @ Deadline # later) (watch d))
       \<and> polls (run (before @ Deadline # later) (watch d)) = polls (run before (watch d))
       \<and> count_list (reports (run (before @ Deadline # later) (watch d))) (Error, contact_message) = 1
       \<and> (all_pending later \<longrightarrow>
            reports (run (before @ Deadline # later) (watch d)) = [(Error, contact_message)])"
proof -
  let ?s = "run before (watch d)"
  have running: "armed d ?s" and quiet: "logged ?s = [(Info, generating_message)]"
    using run_pending_armed [OF armed_watch assms] by (simp_all add: watch_eq)
  have gone: "disarmed d (step Deadline ?s)"
    and line: "logged (step Deadline ?s) = logged ?s @ [(Error, contact_message)]"
    and count: "polls (step Deadline ?s) = polls ?s"
    using step_Deadline_armed [OF running] by simp_all
  have still: "disarmed d (run later (step Deadline ?s))"
    and sent: "polls (run later (step Deadline ?s)) = polls (step Deadline ?s)"
    using run_disarmed [OF gone, of later] by simp_all
  have "reports (run (before @ [Deadline]) (watch d)) = [(Error, contact_message)]"
    by (simp add: run_append reports_def line quiet del: step.simps)
  moreover have "\<not> interval_live (run (before @ Deadline # later) (watch d))"
    and "\<not> deadline_pending (run (before @ Deadline # later) (watch d))"
    using disarmed_quiet [OF still] by (simp_all add: run_append del: step.simps)
  moreover have "polls (run (before @ Deadline # later) (watch d)) = polls ?s"
    by (simp add: run_append sent count del: step.simps)
  moreover have
    "count_list (reports (run (before @ Deadline # later) (watch d))) (Error, contact_message) = 1"
  proof -
    let ?t = "run later (step Deadline ?s)"
    have "count_list (logged ?t) (Error, contact_message)
        = count_list (logged (step Deadline ?s)) (Error, contact_message)"
      using gone by (rule run_disarmed_contact)
    then have total: "count_list (logged ?t) (Error, contact_message) = 1"
      by (simp add: line quiet del: step.simps)
    obtain ls where "logged ?t = logged (step Deadline ?s) @ ls"
      using run_logged_grows [of later "step Deadline ?s"] by blast
    then have parts: "logged ?t = (Info, generating_message) # reports ?t"
      by (simp add: line quiet reports_def del: step.simps)
    have "count_list (reports ?t) (Error, contact_message) = 1"
      using total by (subst (asm) parts) (simp del: step.simps)
    then show ?thesis
      by (simp add: run_append del: step.simps)
  qed
  moreover have "reports (run (before @ Deadline # later) (watch d)) = [(Error, contact_message)]"
    if "all_pending later"
    using run_pending_disarmed [OF gone that] by (simp add: run_append reports_def line quiet del: step.simps)
  ultimately show ?thesis
    by (simp add: contact_message_def)
qed

theorem all_pending_times_out_once_witness:
  "all_pending [Tick, Response \<lparr>status = ''pending'', ctx = None\<rparr>, Tick]
   \<and> Deadline \<notin> set [Tick, Response \<lparr>status = ''pending'', ctx = None\<rparr>, Tick]
   \<and> all_pending [Response \<lparr>status = ''pending'', ctx = None\<rparr>, Tick, Deadline]
   \<and> reports (run ([Tick, Response \<lparr>status = ''pending'', ctx = None\<rparr>, Tick]
         @ Deadline # [Response \<lparr>status = ''pending'', ctx = None\<rparr>, Tick, Deadline])
         (watch ''docs.example.com'')) = [(Error, contact_message)]
   \<and> polls (run ([Tick, Response \<lparr>status = ''pending'', ctx = None\<rparr>, Tick]
         @ Deadline # [Response \<lparr>status = ''pending'', ctx = None\<rparr>, Tick, Deadline])
         (watch ''docs.example.com'')) = 2"
  using all_pending_times_out_once
    [of "[Tick, Response \<lparr>status = ''pending'', ctx = None\<rparr>, Tick]" "''docs.example.com''"
      "[Response \<lparr>status = ''pending'', ctx = None\<rparr>, Tick, Deadline]"]
  by (simp add: run_defs)


section \<open>Orderly runs\<close>

lemma awaiting_watch: "awaiting d (watch d)"
  by (simp add: awaiting_def armed_watch) (simp add: watch_eq)

lemma concluded_step:
  assumes "concluded d s"
  shows "step e s = s"
proof (cases e)
  case Tick
  with assms show ?thesis
    using step_timer_disarmed(1) [of d s] by (simp add: concluded_def del: step.simps)
next
  case Deadline
  with assms show ?thesis
    using step_timer_disarmed(2) [of d s] by (simp add: concluded_def del: step.simps)
next
  case (Response r)
  with assms show ?thesis by (simp add: concluded_def)
qed

lemma concluded_run: "concluded d s \<Longrightarrow> run es s = s"
  by (induction es) (simp_all add: concluded_step del: step.simps)

lemma printed_length:
  "clearing r \<Longrightarrow> length (printed d r) = 1"
  "\<not> clearing r \<Longrightarrow> \<not> invalid_domain r \<Longrightarrow> printed d r = []"
  by (auto simp add: printed_def clearing_def invalid_domain_def)

lemma awaiting_step:
  assumes "awaiting d s" and "orderly [e] s" and "no_invalid_domain [e]"
  shows "(awaiting d (step e s) \<or> concluded d (step e s))
       \<and> (e = Deadline \<longrightarrow> concluded d (step e s))"
proof (cases e)
  case Tick
  with assms have "armed d s" and "in_flight s = 0" and "length (logged s) = 1"
    by (simp_all add: awaiting_def)
  then have "awaiting d (step Tick s)"
    using step_Tick_armed [of d s] by (simp add: awaiting_def poll_send_def del: step.simps)
  with Tick show ?thesis by simp
next
  case Deadline
  with assms have "armed d s" and "in_flight s = 0" and "length (logged s) = 1"
    by (simp_all add: awaiting_def)
  then have "concluded d (step Deadline s)"
    using step_Deadline_armed [of d s] by (simp add: concluded_def del: step.simps)
  with Deadline show ?thesis by simp
next
  case (Response r)
  from assms(1) have shape: "armed d s" "in_flight s \<le> 1" "length (logged s) = 1"
    by (simp_all add: awaiting_def)
  from Response assms(3) have valid: "\<not> invalid_domain r" by simp
  show ?thesis
  proof (cases "in_flight s = 0")
    case True
    with Response assms(1) show ?thesis by simp
  next
    case False
    let ?s = "s\<lparr>in_flight := in_flight s - 1\<rparr>"
    from False shape have one: "in_flight s = 1" by simp
    from False Response have after: "step e s = poll_resume r ?s" by simp
    from shape have before: "armed d ?s" by simp
    have count: "in_flight (poll_resume r ?s) = 0"
      by (simp add: poll_resume_counts one)
    show ?thesis
    proof (cases "clearing r")
      case True
      with before have gone: "disarmed d (poll_resume r ?s)"
        using poll_resume_armed [of d ?s r] by simp
      from True have "length (printed (domain s) r) = 1"
        by (rule printed_length(1))
      with shape have "length (logged (poll_resume r ?s)) = 2"
        by (simp add: poll_resume_logged)
      with gone count have "concluded d (step e s)"
        by (simp add: after concluded_def)
      with Response show ?thesis by simp
    next
      case False
      with before have still: "armed d (poll_resume r ?s)"
        using poll_resume_armed [of d ?s r] by simp
      from False valid have "printed (domain s) r = []"
        by (rule printed_length(2))
      with shape have "length (logged (poll_resume r ?s)) = 1"
        by (simp add: poll_resume_logged)
      with still count have "awaiting d (step e s)"
        by (simp add: after awaiting_def)
      with Response show ?thesis by simp
    qed
  qed
qed

lemma orderly_Cons: "orderly (e # es) s \<Longrightarrow> orderly [e] s \<and> orderly es (step e s)"
  by (cases e) simp_all

lemma no_invalid_domain_Cons:
  "no_invalid_domain (e # es) \<Longrightarrow> no_invalid_domain [e] \<and> no_invalid_domain es"
  by (cases e) simp_all

lemma awaiting_run:
  "awaiting d s \<Longrightarrow> orderly es s \<Longrightarrow> no_invalid_domain es \<Longrightarrow>
     (awaiting d (run es s) \<or> concluded d (run es s))
     \<and> (Deadline \<in> set es \<longrightarrow> concluded d (run es s))"
proof (induction es arbitrary: s)
  case Nil
  then show ?case by simp
next
  case (Cons e es)
  from Cons.prems(2) have first: "orderly [e] s" and rest: "orderly es (step e s)"
    using orderly_Cons by blast+
  from Cons.prems(3) have valid: "no_invalid_domain [e]" and valid_rest: "no_invalid_domain es"
    using no_invalid_domain_Cons by blast+
  from Cons.prems(1) first valid
  have next_state: "awaiting d (step e s) \<or> concluded d (step e s)"
    and deadline: "e = Deadline \<longrightarrow> concluded d (step e s)"
    using awaiting_step [of d s e] by simp_all
  from next_state show ?case
  proof
    assume still: "awaiting d (step e s)"
    with deadline have "e \<noteq> Deadline"
      using armed_not_disarmed [of d "step e s"] by (auto simp add: awaiting_def concluded_def)
    then show ?thesis
      using Cons.IH [OF still rest valid_rest] by simp
  next
    assume "concluded d (step e s)"
    then show ?thesis
      using concluded_run [of d "step e s" es] by simp
  qed
qed

text \<open>
  C2.  The specification has the workflow report one outcome and never a second,
  whatever the answers and however the timers interleave.  The code acts on each answer
  that arrives, also after it has reported an outcome.  What holds: in an orderly run, where each answer is handled before the next timer comes due, and with no
  answer \<open>error\<close> with context \<open>invalid_domain\<close>, the callbacks print at most one line;
  once the deadline has come due they have printed exactly one; and once a line is
  printed both timers are gone.
\<close>

theorem one_outcome_in_orderly_runs:
  assumes "orderly evs (watch d)" and "no_invalid_domain evs"
  shows "length (reports (run evs (watch d))) \<le> 1
       \<and> (Deadline \<in> set evs \<longrightarrow> length (reports (run evs (watch d))) = 1)
       \<and> (reports (run evs (watch d)) \<noteq> [] \<longrightarrow>
            \<not> interval_live (run evs (watch d)) \<and> \<not> deadline_pending (run evs (watch d)))"
proof -
  let ?s = "run evs (watch d)"
  have shape: "awaiting d ?s \<or> concluded d ?s"
    and deadline: "Deadline \<in> set evs \<longrightarrow> concluded d ?s"
    using awaiting_run [OF awaiting_watch assms] by simp_all
  have none: "reports ?s = []" if "awaiting d ?s"
    using that by (simp add: awaiting_def reports_def)
  have one: "length (reports ?s) = 1" and gone: "\<not> interval_live ?s \<and> \<not> deadline_pending ?s"
    if "concluded d ?s"
    using that disarmed_quiet [of d ?s] by (simp_all add: concluded_def reports_def)
  from shape show ?thesis
  proof
    assume "awaiting d ?s"
    with deadline show ?thesis
      using none armed_not_disarmed [of d ?s] by (auto simp add: awaiting_def concluded_def)
  next
    assume "concluded d ?s"
    then show ?thesis
      using one gone by simp
  qed
qed

theorem one_outcome_in_orderly_runs_witness:
  "orderly [Tick, Response \<lparr>status = ''pending'', ctx = None\<rparr>, Tick,
            Response \<lparr>status = ''ok'', ctx = None\<rparr>, Tick, Deadline] (watch ''docs.example.com'')
   \<and> no_invalid_domain [Tick, Response \<lparr>status = ''pending'', ctx = None\<rparr>, Tick,
            Response \<lparr>status = ''ok'', ctx = None\<rparr>, Tick, Deadline]
   \<and> Deadline \<in> set [Tick, Response \<lparr>status = ''pending'', ctx = None\<rparr>, Tick,
            Response \<lparr>status = ''ok'', ctx = None\<rparr>, Tick, Deadline]
   \<and> length (reports (run [Tick, Response \<lparr>status = ''pending'', ctx = None\<rparr>, Tick,
            Response \<lparr>status = ''ok'', ctx = None\<rparr>, Tick, Deadline] (watch ''docs.example.com'')))
       = 1
   \<and> reports (run [Tick, Response \<lparr>status = ''pending'', ctx = None\<rparr>, Tick,
            Response \<lparr>status = ''ok'', ctx = None\<rparr>, Tick, Deadline] (watch ''docs.example.com''))
       = [(Info, added_message ''docs.example.com'')]"
  using one_outcome_in_orderly_runs
    [of "[Tick, Response \<lparr>status = ''pending'', ctx = None\<rparr>, Tick,
          Response \<lparr>status = ''ok'', ctx = None\<rparr>, Tick, Deadline]" "''docs.example.com''"]
  by (simp add: run_defs invalid_domain_def)

text \<open>
  C2 as the specification states it fails.  Two ticks pass before the first answer arrives and
  both requests are answered \<open>ok\<close>: the line of success is printed twice.  Or the deadline
  comes due while a request is unanswered and the answer is \<open>ok\<close>: the line of the
  deadline is followed by the line of success.
\<close>

theorem late_answers_report_again:
  "reports (run [Tick, Tick, Response \<lparr>status = ''ok'', ctx = None\<rparr>,
                 Response \<lparr>status = ''ok'', ctx = None\<rparr>] (watch ''docs.example.com''))
     = [(Info, added_message ''docs.example.com''), (Info, added_message ''docs.example.com'')]
   \<and> reports (run [Tick, Deadline, Response \<lparr>status = ''ok'', ctx = None\<rparr>]
                 (watch ''docs.example.com''))
     = [(Error, contact_message), (Info, added_message ''docs.example.com'')]"
  by (simp add: run_defs)


section \<open>Unanswered requests\<close>

lemma step_in_flight:
  assumes "armed d s \<or> disarmed d s"
  shows "in_flight (step Tick s) = (if interval_live s then Suc (in_flight s) else in_flight s)"
    and "in_flight (step Deadline s) = in_flight s"
    and "in_flight (step (Response r) s) = in_flight s - 1"
proof -
  from assms show
    "in_flight (step Tick s) = (if interval_live s then Suc (in_flight s) else in_flight s)"
  proof
    assume "armed d s"
    then show ?thesis
      using step_Tick_armed [of d s]
      by (simp add: poll_send_def armed_def wired_def interval_live_def del: step.simps)
  next
    assume "disarmed d s"
    then show ?thesis
      using step_timer_disarmed(1) [of d s] disarmed_quiet [of d s] by (simp del: step.simps)
  qed
  from assms show "in_flight (step Deadline s) = in_flight s"
  proof
    assume "armed d s"
    then show ?thesis
      using step_Deadline_armed [of d s] by (simp del: step.simps)
  next
    assume "disarmed d s"
    then show ?thesis
      using step_timer_disarmed(2) [of d s] by (simp del: step.simps)
  qed
  show "in_flight (step (Response r) s) = in_flight s - 1"
    by (simp add: poll_resume_counts)
qed

lemma one_in_flight_iff:
  "armed d s \<or> disarmed d s \<Longrightarrow>
     (\<forall>n. in_flight (run (take n es) s) \<le> 1)
       = (in_flight s \<le> 1 \<and> ticks_after_answers es s)"
proof (induction es arbitrary: s)
  case Nil
  then show ?case by simp
next
  case (Cons e es)
  let ?s = "step e s"
  from Cons.prems have shape: "armed d ?s \<or> disarmed d ?s"
    by (rule step_shape)
  have split: "(\<forall>n. in_flight (run (take n (e # es)) s) \<le> 1)
      = (in_flight s \<le> 1 \<and> (\<forall>m. in_flight (run (take m es) ?s) \<le> 1))"
  proof
    assume all: "\<forall>n. in_flight (run (take n (e # es)) s) \<le> 1"
    from all [rule_format, of 0] have "in_flight s \<le> 1" by simp
    moreover have "in_flight (run (take m es) ?s) \<le> 1" for m
      using all [rule_format, of "Suc m"] by (simp del: step.simps)
    ultimately show "in_flight s \<le> 1 \<and> (\<forall>m. in_flight (run (take m es) ?s) \<le> 1)"
      by simp
  next
    assume rhs: "in_flight s \<le> 1 \<and> (\<forall>m. in_flight (run (take m es) ?s) \<le> 1)"
    show "\<forall>n. in_flight (run (take n (e # es)) s) \<le> 1"
    proof
      fix n
      show "in_flight (run (take n (e # es)) s) \<le> 1"
        using rhs by (cases n) (simp_all del: step.simps)
    qed
  qed
  have tail: "(\<forall>m. in_flight (run (take m es) ?s) \<le> 1)
      = (in_flight ?s \<le> 1 \<and> ticks_after_answers es ?s)"
    using shape by (rule Cons.IH)
  have head: "(in_flight s \<le> 1 \<and> in_flight ?s \<le> 1 \<and> ticks_after_answers es ?s)
      = (in_flight s \<le> 1 \<and> ticks_after_answers (e # es) s)"
  proof (cases e)
    case Tick
    then show ?thesis
      using step_in_flight(1) [OF Cons.prems] by (auto simp del: step.simps)
  next
    case Deadline
    then show ?thesis
      using step_in_flight(2) [OF Cons.prems] by (auto simp del: step.simps)
  next
    case (Response r)
    then show ?thesis
      using step_in_flight(3) [OF Cons.prems, of r] by (auto simp del: step.simps)
  qed
  show ?case
    unfolding split tail using head by blast
qed

text \<open>
  C3.  The specification has a tick that finds a request unanswered be skipped, so that
  no two requests are ever unanswered at once.  The interval callback sends its request on
  every tick (line 217 is its first statement): while the interval timer is active, a
  tick adds one unanswered request to however many there are.  So at most one request is
  unanswered at every point of a run exactly when its ticks come after the answers: no
  tick of the active interval timer finds a request unanswered.
\<close>

theorem every_tick_sends_a_request:
  "(interval_live (run evs (watch d)) \<longrightarrow>
       in_flight (run (evs @ [Tick]) (watch d)) = Suc (in_flight (run evs (watch d)))
       \<and> polls (run (evs @ [Tick]) (watch d)) = Suc (polls (run evs (watch d))))
   \<and> ((\<forall>n. in_flight (run (take n evs) (watch d)) \<le> 1) = ticks_after_answers evs (watch d))"
proof -
  let ?s = "run evs (watch d)"
  have "in_flight (step Tick ?s) = Suc (in_flight ?s) \<and> polls (step Tick ?s) = Suc (polls ?s)"
    if "interval_live ?s"
  proof -
    from that have "armed d ?s"
      using reachable_shape [of d evs] disarmed_quiet [of d ?s] by blast
    then show ?thesis
      using step_Tick_armed [of d ?s] by (simp add: poll_send_def del: step.simps)
  qed
  moreover have "(\<forall>n. in_flight (run (take n evs) (watch d)) \<le> 1)
      = ticks_after_answers evs (watch d)"
    using one_in_flight_iff [of d "watch d" evs] armed_watch [of d] by (simp add: watch_eq)
  ultimately show ?thesis
    by (simp add: run_append del: step.simps)
qed

theorem every_tick_sends_a_request_witness:
  "interval_live (run [Tick] (watch ''docs.example.com''))
   \<and> in_flight (run [Tick] (watch ''docs.example.com'')) = 1
   \<and> in_flight (run ([Tick] @ [Tick]) (watch ''docs.example.com'')) = 2
   \<and> polls (run ([Tick] @ [Tick]) (watch ''docs.example.com'')) = 2
   \<and> \<not> ticks_after_answers [Tick, Tick] (watch ''docs.example.com'')
   \<and> \<not> (\<forall>n. in_flight (run (take n [Tick, Tick]) (watch ''docs.example.com'')) \<le> 1)
   \<and> ticks_after_answers [Tick, Deadline, Response \<lparr>status = ''pending'', ctx = None\<rparr>]
         (watch ''docs.example.com'')
   \<and> (\<forall>n. in_flight (run (take n [Tick, Deadline, Response \<lparr>status = ''pending'', ctx = None\<rparr>])
         (watch ''docs.example.com'')) \<le> 1)"
  using every_tick_sends_a_request [of "[Tick]" "''docs.example.com''"]
    every_tick_sends_a_request [of "[Tick, Tick]" "''docs.example.com''"]
    every_tick_sends_a_request
      [of "[Tick, Deadline, Response \<lparr>status = ''pending'', ctx = None\<rparr>]" "''docs.example.com''"]
  by (simp add: run_defs)

text \<open>
  C3 as the specification states it fails: two ticks before the first answer leave two requests
  unanswered.
\<close>

theorem second_tick_overlaps:
  "in_flight (run [Tick] (watch ''docs.example.com'')) = 1
   \<and> in_flight (run [Tick, Tick] (watch ''docs.example.com'')) = 2
   \<and> polls (run [Tick, Tick] (watch ''docs.example.com'')) = 2"
  by (simp add: run_defs)


section \<open>The timers and their delays\<close>

text \<open>
  C8.  The handler starts both timers before it returns: the interval timer repeats
  with a delay of 500 milliseconds and runs the polling callback, the other timer fires
  once after 20000 milliseconds and runs the callback that gives up.  The numbers are
  written in the code, \<open>watch\<close> takes nothing but the domain; and nothing starts a timer
  later: at every point of every run the runtime holds these two timers or none.
\<close>

theorem timers_started_with_500_and_20000:
  "domains_add (Some token) d True = Inr (watch d)
   \<and> interval (watch d) = 1
   \<and> timeout (watch d) = Some 2
   \<and> timers (watch d) =
       [1 \<mapsto> \<lparr>delay = 500, repeating = True, callback = PollCallback\<rparr>,
        2 \<mapsto> \<lparr>delay = 20000, repeating = False, callback = TimeoutCallback\<rparr>]
   \<and> interval_live (watch d)
   \<and> deadline_pending (watch d)
   \<and> (timers (run evs (watch d)) = timers (watch d) \<or> timers (run evs (watch d)) = Map.empty)"
proof -
  have "timers (run evs (watch d)) = timers (watch d) \<or> timers (run evs (watch d)) = Map.empty"
    using reachable_shape [of d evs] by (auto simp add: armed_def disarmed_def watch_eq)
  then show ?thesis
    by (simp add: domains_add_def watch_eq poll_timer_def deadline_timer_def interval_live_def
        deadline_pending_def)
qed

end
